theory Spec2Isabelle
  imports Complex_Main "HOL-Library.Word"
begin

chapter \<open>The program\<close>

section \<open>The rAF throttle utility (script.js, lines 80-91)\<close>

text \<open>
  The source:
  \<^verbatim>\<open>
  const rafThrottle = (fn) => {
    let ticking = false;
    return function (...args) {
      if (!ticking) {
        window.requestAnimationFrame(() => {
          fn.apply(this, args);
          ticking = false;
        });
        ticking = true;
      }
    };
  };
  \<close>
  A handler \<open>fn\<close> receives its \<open>this\<close> binding and its argument list and acts on
  whatever it can reach (the type \<open>'h\<close>); it either returns or throws, and in both cases
  the effects it made so far stay.
\<close>

datatype 'h completion = Returns 'h | Throws 'h

type_synonym ('t, 'a, 'h) handler = "'t \<Rightarrow> 'a \<Rightarrow> 'h \<Rightarrow> 'h completion"

text \<open>
  The arrow function handed to \<open>requestAnimationFrame\<close> is a closure over \<open>fn\<close>,
  \<open>this\<close> and \<open>args\<close> of the wrapper call that created it: the triple of the captured
  values stands for it. The state is the one of a single wrapper: its \<open>ticking\<close>
  variable, the callbacks it has registered for the next frame, the handler's world, and
  the trace of the \<open>fn.apply\<close> calls made so far (\<open>applied\<close>, the only field the
  source does not have: it is what the claims observe).
\<close>

record ('t, 'a, 'h) throttle =
  ticking :: bool
  raf_callbacks :: "(('t, 'a, 'h) handler \<times> 't \<times> 'a) list"
  world :: 'h
  applied :: "('t \<times> 'a) list"

definition rafThrottle ::
  "('t, 'a, 'h) handler \<Rightarrow> 't \<Rightarrow> 'a \<Rightarrow> ('t, 'a, 'h) throttle \<Rightarrow> ('t, 'a, 'h) throttle" where
  "rafThrottle fn this args s =
     (if \<not> ticking s
      then s\<lparr>raf_callbacks := raf_callbacks s @ [(fn, this, args)], ticking := True\<rparr>
      else s)"

text \<open>
  The body of the registered arrow function: \<open>fn.apply(this, args); ticking = false;\<close>.
  When \<open>fn\<close> throws, the assignment after it is not reached.
\<close>

definition raf_callback ::
  "('t, 'a, 'h) handler \<times> 't \<times> 'a \<Rightarrow> ('t, 'a, 'h) throttle \<Rightarrow> ('t, 'a, 'h) throttle" where
  "raf_callback cb s =
     (case cb of (fn, this, args) \<Rightarrow>
        (case fn this args (world s) of
           Returns w \<Rightarrow> s\<lparr>world := w, applied := applied s @ [(this, args)], ticking := False\<rparr>
         | Throws w \<Rightarrow> s\<lparr>world := w, applied := applied s @ [(this, args)]\<rparr>))"

text \<open>
  One animation frame: the browser takes the callbacks registered so far, empties the
  list, and runs them in order; an exception in a callback is reported and does not stop
  the others.
\<close>

definition animation_frame :: "('t, 'a, 'h) throttle \<Rightarrow> ('t, 'a, 'h) throttle" where
  "animation_frame s = fold raf_callback (raf_callbacks s) (s\<lparr>raf_callbacks := []\<rparr>)"

text \<open>What can happen to a wrapper: it is called, or a frame is rendered.\<close>

datatype ('t, 'a) event = Call 't 'a | Frame

fun step :: "('t, 'a, 'h) handler \<Rightarrow> ('t, 'a) event \<Rightarrow> ('t, 'a, 'h) throttle \<Rightarrow> ('t, 'a, 'h) throttle" where
  "step fn (Call this args) s = rafThrottle fn this args s"
| "step fn Frame s = animation_frame s"

definition run :: "('t, 'a, 'h) handler \<Rightarrow> ('t, 'a) event list \<Rightarrow> ('t, 'a, 'h) throttle \<Rightarrow> ('t, 'a, 'h) throttle" where
  "run fn es s = fold (step fn) es s"

text \<open>The calls of a burst, each with its own binding and arguments.\<close>

definition calls :: "('t, 'a, 'h) handler \<Rightarrow> ('t \<times> 'a) list \<Rightarrow> ('t, 'a, 'h) throttle \<Rightarrow> ('t, 'a, 'h) throttle" where
  "calls fn cs s = fold (\<lambda>c. rafThrottle fn (fst c) (snd c)) cs s"

text \<open>A wrapper just made by \<open>rafThrottle(fn)\<close>: \<open>ticking = false\<close>, nothing registered.\<close>

definition fresh :: "'h \<Rightarrow> ('t, 'a, 'h) throttle" where
  "fresh w = \<lparr>ticking = False, raf_callbacks = [], world = w, applied = []\<rparr>"

text \<open>Two concrete handlers: one records its arguments in the world, one always throws.\<close>

definition recording :: "(string, nat list, nat list list) handler" where
  "recording this args w = Returns (w @ [args])"

definition failing :: "(string, nat list, nat list list) handler" where
  "failing this args w = Throws w"

section \<open>Strings of the script\<close>

text \<open>
  A JavaScript string is a sequence of 16-bit code units. \<open>js\<close> writes an ASCII
  literal as such a sequence.
\<close>

type_synonym jsstring = "16 word list"

definition js :: "string \<Rightarrow> jsstring" where
  "js s = map (\<lambda>c. of_nat (of_char c :: nat)) s"

text \<open>
  \<open>String.prototype.trim\<close> strips white space and line terminators from both ends:
  TAB, LF, VT, FF, CR, SP, NBSP, the Unicode space separators, LS, PS and the BOM.
\<close>

definition isWhiteSpace :: "16 word \<Rightarrow> bool" where
  "isWhiteSpace c \<longleftrightarrow>
     c = 0x9 \<or> c = 0xA \<or> c = 0xB \<or> c = 0xC \<or> c = 0xD \<or> c = 0x20 \<or> c = 0xA0 \<or>
     c = 0x1680 \<or> (0x2000 \<le> c \<and> c \<le> 0x200A) \<or> c = 0x2028 \<or> c = 0x2029 \<or>
     c = 0x202F \<or> c = 0x205F \<or> c = 0x3000 \<or> c = 0xFEFF"

definition trim :: "jsstring \<Rightarrow> jsstring" where
  "trim s = rev (dropWhile isWhiteSpace (rev (dropWhile isWhiteSpace s)))"

text \<open>
  \<open>s.split(sep)\<close> for a separator of one code unit: the pieces between the
  separators, empty pieces included; a string without separator is one piece.
\<close>

fun js_split :: "16 word \<Rightarrow> jsstring \<Rightarrow> jsstring list" where
  "js_split sep [] = [[]]"
| "js_split sep (c # cs) =
     (if c = sep then [] # js_split sep cs
      else (case js_split sep cs of
              [] \<Rightarrow> [[c]]
            | w # ws \<Rightarrow> (c # w) # ws))"

definition comma :: "16 word" where
  "comma = 0x2C"

text \<open>
  \<open>v || d\<close> for a value \<open>v\<close> that is a string or \<open>undefined\<close>: both
  \<open>undefined\<close> and the empty string are falsy.
\<close>

definition or_default :: "jsstring option \<Rightarrow> jsstring \<Rightarrow> jsstring" where
  "or_default v d = (case v of None \<Rightarrow> d | Some s \<Rightarrow> if s = [] then d else s)"

section \<open>Header and scroll indicator (script.js, lines 96-123)\<close>

text \<open>
  \<open>classList.toggle(token, force)\<close>: with \<open>force\<close> true the token is added unless
  present, with \<open>force\<close> false it is removed.
\<close>

definition classList_toggle :: "jsstring \<Rightarrow> bool \<Rightarrow> jsstring list \<Rightarrow> jsstring list" where
  "classList_toggle token force classList =
     (if force
      then (if token \<in> set classList then classList else classList @ [token])
      else removeAll token classList)"

text \<open>
  What the header handler reaches: \<open>window.scrollY\<close> and the class list of the
  header element. The offset is a double, and every finite double is a rational; the
  comparison with 50 is exact.
\<close>

record header_page =
  scrollY :: rat
  header :: "jsstring list"

text \<open>
  \<^verbatim>\<open>
  const scrolled = window.scrollY > 50;
  header.classList.toggle('scrolled', scrolled);
  \<close>
\<close>

definition header_handler :: "header_page \<Rightarrow> header_page" where
  "header_handler w =
     (let scrolled = scrollY w > 50
      in w\<lparr>header := classList_toggle (js ''scrolled'') scrolled (header w)\<rparr>)"

definition onHeaderScroll ::
  "'t \<Rightarrow> 'a \<Rightarrow> ('t, 'a, header_page) throttle \<Rightarrow> ('t, 'a, header_page) throttle" where
  "onHeaderScroll = rafThrottle (\<lambda>this args w. Returns (header_handler w))"

text \<open>
  The numbers of JavaScript are IEEE 754 doubles: the finite ones are rationals, and
  there are two infinities and NaN. (The two zeros are not told apart: nothing below
  depends on the sign of a zero.)
\<close>

datatype jsnum = Num rat | PosInf | NegInf | NaN

text \<open>Rounding to the nearest integer, a tie going to the even one.\<close>

definition round_even :: "rat \<Rightarrow> int" where
  "round_even x =
     (let f = \<lfloor>x\<rfloor>; r = x - of_int f
      in if r < 1 / 2 then f
         else if 1 / 2 < r then f + 1
         else if even f then f else f + 1)"

fun floor_log2 :: "nat \<Rightarrow> nat" where
  "floor_log2 n = (if n < 2 then 0 else Suc (floor_log2 (n div 2)))"

declare floor_log2.simps [simp del]

text \<open>The exponent \<open>e\<close> of a positive rational: \<open>2 ^ e \<le> a < 2 ^ (e + 1)\<close>.\<close>

definition binade :: "rat \<Rightarrow> int" where
  "binade a =
     (if 1 \<le> a then int (floor_log2 (nat \<lfloor>a\<rfloor>))
      else - int (Suc (floor_log2 (nat (\<lceil>1 / a\<rceil> - 1)))))"

text \<open>
  The double nearest to a rational, as every arithmetic operation rounds its exact
  result: 53 significant bits, ties to even, the spacing of the subnormal numbers below
  \<open>2 ^ -1022\<close>, and an infinity once the rounded value reaches \<open>2 ^ 1024\<close>.
\<close>

definition round_double :: "rat \<Rightarrow> jsnum" where
  "round_double x =
     (if x = 0 then Num 0
      else
        (let a = \<bar>x\<bar>;
             e = max (binade a) (- 1022);
             ulp = 2 powi (e - 52);
             r = of_int (round_even (a / ulp)) * ulp
         in if 2 powi 1024 \<le> r then (if 0 < x then PosInf else NegInf)
            else Num (if 0 < x then r else - r)))"

fun js_mul :: "jsnum \<Rightarrow> jsnum \<Rightarrow> jsnum" where
  "js_mul NaN y = NaN"
| "js_mul x NaN = NaN"
| "js_mul (Num a) (Num b) = round_double (a * b)"
| "js_mul (Num a) PosInf = (if a = 0 then NaN else if 0 < a then PosInf else NegInf)"
| "js_mul (Num a) NegInf = (if a = 0 then NaN else if 0 < a then NegInf else PosInf)"
| "js_mul PosInf (Num b) = (if b = 0 then NaN else if 0 < b then PosInf else NegInf)"
| "js_mul NegInf (Num b) = (if b = 0 then NaN else if 0 < b then NegInf else PosInf)"
| "js_mul PosInf PosInf = PosInf"
| "js_mul PosInf NegInf = NegInf"
| "js_mul NegInf PosInf = NegInf"
| "js_mul NegInf NegInf = PosInf"

text \<open>
  Division. A zero divisor gives an infinity or NaN in JavaScript; here it gives
  \<open>None\<close>, which marks that a division by zero was performed.
\<close>

fun js_div :: "jsnum \<Rightarrow> jsnum \<Rightarrow> jsnum option" where
  "js_div x (Num b) =
     (if b = 0 then None
      else Some (case x of
                   Num a \<Rightarrow> round_double (a / b)
                 | PosInf \<Rightarrow> if 0 < b then PosInf else NegInf
                 | NegInf \<Rightarrow> if 0 < b then NegInf else PosInf
                 | NaN \<Rightarrow> NaN))"
| "js_div (Num a) PosInf = Some (Num 0)"
| "js_div (Num a) NegInf = Some (Num 0)"
| "js_div x y = Some NaN"

fun js_less :: "jsnum \<Rightarrow> jsnum \<Rightarrow> bool" where
  "js_less NaN y = False"
| "js_less x NaN = False"
| "js_less (Num a) (Num b) = (a < b)"
| "js_less x NegInf = False"
| "js_less NegInf y = True"
| "js_less PosInf y = False"
| "js_less x PosInf = True"

definition Math_max :: "jsnum \<Rightarrow> jsnum \<Rightarrow> jsnum" where
  "Math_max x y = (if x = NaN \<or> y = NaN then NaN else if js_less x y then y else x)"

definition Math_min :: "jsnum \<Rightarrow> jsnum \<Rightarrow> jsnum" where
  "Math_min x y = (if x = NaN \<or> y = NaN then NaN else if js_less y x then y else x)"

text \<open>
  \<^verbatim>\<open>
  const { scrollTop, scrollHeight, clientHeight } = document.documentElement;
  const scrollableHeight = scrollHeight - clientHeight;
  const scrollPercent = scrollableHeight > 0 ? (scrollTop / scrollableHeight) * 100 : 0;
  scrollIndicator.style.transform =
    `scaleX(${Math.min(Math.max(scrollPercent / 100, 0), 1)})`;
  \<close>
  \<open>scrollTop\<close> is a finite double; \<open>scrollHeight\<close> and \<open>clientHeight\<close> are integers
  of the DOM, whose difference is exact. The result is the number inside \<open>scaleX(...)\<close>.
\<close>

definition updateIndicator :: "rat \<Rightarrow> int \<Rightarrow> int \<Rightarrow> jsnum option" where
  "updateIndicator scrollTop scrollHeight clientHeight =
     (let scrollableHeight = scrollHeight - clientHeight
      in case (if scrollableHeight > 0
               then map_option (\<lambda>q. js_mul q (Num 100))
                      (js_div (Num scrollTop) (Num (of_int scrollableHeight)))
               else Some (Num 0)) of
           None \<Rightarrow> None
         | Some scrollPercent \<Rightarrow>
             map_option (\<lambda>x. Math_min (Math_max x (Num 0)) (Num 1))
               (js_div scrollPercent (Num 100)))"

text \<open>The clamp of the specification, on exact numbers and written by cases.\<close>

definition clamp :: "rat \<Rightarrow> rat \<Rightarrow> rat \<Rightarrow> rat" where
  "clamp x lo hi = (if x < lo then lo else if hi < x then hi else x)"

section \<open>Toast notifier (script.js, lines 273-303)\<close>

text \<open>
  A toast element is told from the others by the number of its creation. The page holds
  the clock (milliseconds), the toasts that are children of \<open>document.body\<close>, the
  callbacks waiting for their time, and the tweens handed to the animation engine.
\<close>

record toast =
  toast_id :: nat
  textContent :: jsstring
  className :: jsstring

datatype task =
  ExitTimer nat      \<comment> \<open>the \<open>setTimeout\<close> callback of a toast\<close>
| ExitComplete nat   \<comment> \<open>the \<open>onComplete\<close> of a toast's exit tween: \<open>toast.remove()\<close>\<close>

datatype tween = ToastIn nat | ToastOut nat | FormOut | FormIn

record toast_page =
  now :: nat
  body :: "toast list"
  waiting :: "(nat \<times> task) list"
  tweens :: "tween list"
  created :: nat

fun task_toast :: "task \<Rightarrow> nat" where
  "task_toast (ExitTimer k) = k"
| "task_toast (ExitComplete k) = k"

definition toast_colour :: "jsstring \<Rightarrow> jsstring" where
  "toast_colour type =
     (if type = js ''success'' then js ''bg-green-600''
      else if type = js ''error'' then js ''bg-red-600''
      else js ''bg-gray-700'')"

definition toast_className :: "jsstring \<Rightarrow> jsstring" where
  "toast_className type =
     js ''fixed bottom-6 right-6 px-4 py-3 rounded-lg text-white shadow-lg z-50 transition-all duration-500 transform''
     @ [0x0A] @ js ''    '' @ toast_colour type"

text \<open>
  \<open>showToast(message, type)\<close>: the element is appended to the body, the entrance
  tween starts, and a timer of 3000 ms is set whose callback starts the exit tween. (A
  call without \<open>type\<close> is the call with \<open>info\<close>; the script makes none.)
\<close>

definition showToast :: "jsstring \<Rightarrow> jsstring \<Rightarrow> 'z toast_page_scheme \<Rightarrow> 'z toast_page_scheme" where
  "showToast message type p =
     (let k = created p;
          el = \<lparr>toast_id = k, textContent = message, className = toast_className type\<rparr>
      in p\<lparr>body := body p @ [el],
           tweens := tweens p @ [ToastIn k],
           waiting := waiting p @ [(now p + 3000, ExitTimer k)],
           created := Suc k\<rparr>)"

text \<open>
  The timer's callback hands the exit tween to the animation engine, with a duration of
  half a second and an \<open>onComplete\<close> that is \<open>toast.remove()\<close>. The engine times
  its tweens by its own ticker, so the script cannot tell how long after this call the
  \<open>onComplete\<close> comes: the model only has it come after the call.
\<close>

fun run_task :: "task \<Rightarrow> 'z toast_page_scheme \<Rightarrow> 'z toast_page_scheme" where
  "run_task (ExitTimer k) p =
     p\<lparr>tweens := tweens p @ [ToastOut k],
       waiting := waiting p @ [(now p, ExitComplete k)]\<rparr>"
| "run_task (ExitComplete k) p =
     p\<lparr>body := filter (\<lambda>el. toast_id el \<noteq> k) (body p)\<rparr>"

text \<open>
  The browser and the animation engine run a waiting callback when they choose, but never
  before its time: a timer's callback not before its delay has passed, an
  \<open>onComplete\<close> not before its tween has been started.
\<close>

definition fire :: "nat \<Rightarrow> 'z toast_page_scheme \<Rightarrow> 'z toast_page_scheme" where
  "fire i p =
     (if i < length (waiting p) \<and> fst (waiting p ! i) \<le> now p
      then run_task (snd (waiting p ! i))
             (p\<lparr>waiting := take i (waiting p) @ drop (Suc i) (waiting p)\<rparr>)
      else p)"

datatype page_event = Elapse nat | Fire nat | Show jsstring jsstring

fun page_step :: "page_event \<Rightarrow> 'z toast_page_scheme \<Rightarrow> 'z toast_page_scheme" where
  "page_step (Elapse d) p = p\<lparr>now := now p + d\<rparr>"
| "page_step (Fire i) p = fire i p"
| "page_step (Show message type) p = showToast message type p"

definition page_run :: "page_event list \<Rightarrow> 'z toast_page_scheme \<Rightarrow> 'z toast_page_scheme" where
  "page_run es p = fold page_step es p"

text \<open>
  Every toast of the page and every waiting callback belongs to an element made
  earlier: true of the page at load, and kept by every event.
\<close>

definition page_ok :: "'z toast_page_scheme \<Rightarrow> bool" where
  "page_ok p \<longleftrightarrow>
     list_all (\<lambda>el. toast_id el < created p) (body p) \<and>
     list_all (\<lambda>w. task_toast (snd w) < created p) (waiting p)"

definition in_document :: "nat \<Rightarrow> 'z toast_page_scheme \<Rightarrow> bool" where
  "in_document k p \<longleftrightarrow> list_ex (\<lambda>el. toast_id el = k) (body p)"

definition page_at_load :: toast_page where
  "page_at_load = \<lparr>now = 0, body = [], waiting = [], tweens = [], created = 0\<rparr>"

section \<open>Contact form (script.js, lines 235-267)\<close>

record button =
  disabled :: bool
  label :: jsstring

text \<open>
  The page of the contact form: the submit button that \<open>form.querySelector\<close> finds
  (\<open>None\<close> when the form has none), the values of the form's fields and their
  defaults, and the lines written by \<open>console.error\<close>.
\<close>

record contact_page = toast_page +
  submitButton :: "button option"
  field_values :: "jsstring list"
  field_defaults :: "jsstring list"
  console :: "jsstring list"

text \<open>How the awaited \<open>fetch\<close> ends: a response with its \<open>ok\<close> flag, or an exception.\<close>

datatype fetch_result = Resolved bool | Rejected

definition msg_success :: jsstring where
  "msg_success = 0x2705 # js '' Message sent successfully!''"

definition msg_rejected :: jsstring where
  "msg_rejected = 0x274C # js '' Something went wrong. Please try again.''"

definition msg_network :: jsstring where
  "msg_network = 0x26A0 # 0xFE0F # js '' Network error. Please try again later.''"

text \<open>
  The handler up to the \<open>await\<close>. \<open>e.preventDefault()\<close> and the \<open>FormData\<close>
  change nothing of the page; without a submit button the assignment to
  \<open>submitButton.disabled\<close> throws a TypeError, outside the \<open>try\<close>.
\<close>

definition submit_begin :: "contact_page \<Rightarrow> contact_page completion" where
  "submit_begin p =
     (case submitButton p of
        None \<Rightarrow> Throws p
      | Some b \<Rightarrow> Returns (p\<lparr>submitButton := Some (b\<lparr>disabled := True, label := js ''Sending...''\<rparr>)\<rparr>))"

text \<open>
  The \<open>try\<close> block after the \<open>await\<close>, with its \<open>catch\<close>: the only exception
  is the one \<open>fetch\<close> may end with; the calls of the animation engine,
  \<open>showToast\<close> and \<open>form.reset()\<close> return.
\<close>

definition submit_try :: "fetch_result \<Rightarrow> contact_page \<Rightarrow> contact_page" where
  "submit_try r p =
     (case r of
        Resolved ok \<Rightarrow>
          if ok then
            (let p1 = p\<lparr>tweens := tweens p @ [FormOut]\<rparr>;
                 p2 = showToast msg_success (js ''success'') p1;
                 p3 = p2\<lparr>field_values := field_defaults p2\<rparr>
             in p3\<lparr>tweens := tweens p3 @ [FormIn]\<rparr>)
          else showToast msg_rejected (js ''error'') p
      | Rejected \<Rightarrow>
          showToast msg_network (js ''error'')
            (p\<lparr>console := console p @ [js ''Form submission error:'']\<rparr>))"

text \<open>The \<open>finally\<close> block.\<close>

definition submit_finally :: "contact_page \<Rightarrow> contact_page" where
  "submit_finally p =
     p\<lparr>submitButton :=
         map_option (\<lambda>b. b\<lparr>disabled := False, label := js ''Send Message''\<rparr>) (submitButton p)\<rparr>"

definition submit_settle :: "fetch_result \<Rightarrow> contact_page \<Rightarrow> contact_page" where
  "submit_settle r p = submit_finally (submit_try r p)"

definition submit :: "fetch_result \<Rightarrow> contact_page \<Rightarrow> contact_page completion" where
  "submit r p =
     (case submit_begin p of
        Throws q \<Rightarrow> Throws q
      | Returns q \<Rightarrow> Returns (submit_settle r q))"

section \<open>Project modal (script.js, lines 308-359)\<close>

record card =
  data_title :: "jsstring option"
  data_description :: "jsstring option"
  data_stack :: "jsstring option"

datatype node = Span jsstring jsstring | TextNode jsstring

text \<open>
  Each element looked up by id may be missing (\<open>None\<close>). Of \<open>modalTitle\<close> and
  \<open>modalDescription\<close> the page holds the text, of \<open>modalStack\<close> the children (a
  \<open>Span\<close> with its class name and text, or a text node), of \<open>projectModal\<close> the
  \<open>display\<close> style, of \<open>closeModal\<close> whether it has the focus, and of the body the
  \<open>overflow\<close> style.
\<close>

record modal_page =
  modalTitle :: "jsstring option"
  modalDescription :: "jsstring option"
  modalStack :: "node list option"
  modal :: "jsstring option"
  closeModal :: "bool option"
  overflow :: jsstring

definition span_class :: jsstring where
  "span_class = js ''bg-gray-700 text-gray-300 px-2 py-1 rounded''"

definition parse_stack :: "jsstring option \<Rightarrow> jsstring list" where
  "parse_stack v =
     (case v of
        None \<Rightarrow> []
      | Some s \<Rightarrow> if s = [] then [] else map trim (js_split comma s))"

definition render_stack :: "jsstring list \<Rightarrow> node list" where
  "render_stack stack =
     (if length stack > 0
      then fold (\<lambda>tech children. children @ [Span span_class tech]) stack []
      else [TextNode (js ''Tech stack not specified.'')])"

text \<open>
  The click listener of a project card. An assignment through a missing element throws a
  TypeError and leaves what was written before it.
\<close>

definition card_click :: "card \<Rightarrow> modal_page \<Rightarrow> modal_page completion" where
  "card_click c p =
     (case modalTitle p of
        None \<Rightarrow> Throws p
      | Some _ \<Rightarrow>
     (let p1 = p\<lparr>modalTitle := Some (or_default (data_title c) (js ''Project Details''))\<rparr> in
      case modalDescription p1 of
        None \<Rightarrow> Throws p1
      | Some _ \<Rightarrow>
     (let p2 = p1\<lparr>modalDescription :=
                    Some (or_default (data_description c) (js ''No description available.''))\<rparr> in
      case modalStack p2 of
        None \<Rightarrow> Throws p2
      | Some _ \<Rightarrow>
     (let p3 = p2\<lparr>modalStack := Some []\<rparr>;
          stack = parse_stack (data_stack c);
          p4 = p3\<lparr>modalStack := Some (render_stack stack)\<rparr> in
      case modal p4 of
        None \<Rightarrow> Throws p4
      | Some _ \<Rightarrow>
          Returns (p4\<lparr>modal := Some (js ''block''),
                      overflow := js ''hidden'',
                      closeModal := map_option (\<lambda>_. True) (closeModal p4)\<rparr>)))))"

definition hideModal :: "modal_page \<Rightarrow> modal_page" where
  "hideModal p =
     (case modal p of
        None \<Rightarrow> p
      | Some _ \<Rightarrow> p\<lparr>modal := Some (js ''none''), overflow := []\<rparr>)"

text \<open>
  \<^verbatim>\<open>
  if (event.key === 'Escape' || event.key === 'Esc') {
    if (modal && modal.style.display === "block") hideModal();
  }
  \<close>
\<close>

definition keydown :: "jsstring \<Rightarrow> modal_page \<Rightarrow> modal_page" where
  "keydown key p =
     (if key = js ''Escape'' \<or> key = js ''Esc''
      then (case modal p of
              None \<Rightarrow> p
            | Some display \<Rightarrow> if display = js ''block'' then hideModal p else p)
      else p)"

section \<open>Invariant and example inputs\<close>

text \<open>
  What holds of the toast number \<open>k\<close>, made at time \<open>T\<close>, for as long as the page
  lives: its timer is not due before \<open>T + 3000\<close>; the \<open>onComplete\<close> of its exit
  tween waits only once that tween has started, and is not due before \<open>T + 3000\<close>; and
  the toast is in the document unless that much time has passed and the exit tween has
  started.
\<close>

definition toast_pending :: "nat \<Rightarrow> nat \<Rightarrow> 'z toast_page_scheme \<Rightarrow> bool" where
  "toast_pending k T q \<longleftrightarrow>
     k < created q \<and>
     list_all (\<lambda>w. (snd w = ExitTimer k \<longrightarrow> T + 3000 \<le> fst w) \<and>
                   (snd w = ExitComplete k \<longrightarrow>
                      T + 3000 \<le> fst w \<and> ToastOut k \<in> set (tweens q)))
       (waiting q) \<and>
     (in_document k q \<or> (T + 3000 \<le> now q \<and> ToastOut k \<in> set (tweens q)))"

text \<open>A contact form with three fields filled in, and its button.\<close>

definition send_button :: button where
  "send_button = \<lparr>disabled = False, label = js ''Send''\<rparr>"

definition form_filled :: contact_page where
  "form_filled =
     \<lparr>now = 0, body = [], waiting = [], tweens = [], created = 0,
      submitButton = Some send_button,
      field_values = [js ''Ada'', js ''ada@example.org'', js ''Hello''],
      field_defaults = [[], [], []],
      console = []\<rparr>"

text \<open>A page whose modal has never been opened, the same page with the modal open, and cards.\<close>

definition page_closed :: modal_page where
  "page_closed =
     \<lparr>modalTitle = Some [], modalDescription = Some [], modalStack = Some [],
      modal = Some [], closeModal = Some False, overflow = []\<rparr>"

definition page_open :: modal_page where
  "page_open = page_closed\<lparr>modal := Some (js ''block''), overflow := js ''hidden''\<rparr>"

definition card_with_stack :: "jsstring \<Rightarrow> card" where
  "card_with_stack s = \<lparr>data_title = None, data_description = None, data_stack = Some s\<rparr>"

definition card_bare :: card where
  "card_bare = \<lparr>data_title = None, data_description = None, data_stack = None\<rparr>"

chapter \<open>Properties\<close>

section \<open>The throttle\<close>

lemma rafThrottle_ticking:
  "ticking s \<Longrightarrow> rafThrottle fn this args s = s"
  by (simp add: rafThrottle_def)

lemma calls_ticking:
  "ticking s \<Longrightarrow> calls fn cs s = s"
  by (induction cs) (simp_all add: calls_def rafThrottle_ticking)

lemma calls_first:
  assumes "\<not> ticking s"
  shows "calls fn ((this, args) # cs) s =
    s\<lparr>raf_callbacks := raf_callbacks s @ [(fn, this, args)], ticking := True\<rparr>"
proof -
  have "rafThrottle fn this args s =
      s\<lparr>raf_callbacks := raf_callbacks s @ [(fn, this, args)], ticking := True\<rparr>"
    using assms by (simp add: rafThrottle_def)
  moreover have "calls fn ((this, args) # cs) s = calls fn cs (rafThrottle fn this args s)"
    by (simp add: calls_def)
  ultimately show ?thesis
    by (simp add: calls_ticking)
qed

lemma stuck_step:
  assumes "ticking s" and "raf_callbacks s = []"
  shows "step fn e s = s"
  using assms by (cases e) (simp_all add: rafThrottle_def animation_frame_def)

lemma stuck_run:
  assumes "ticking s" and "raf_callbacks s = []"
  shows "run fn es s = s"
  by (induction es) (simp_all add: run_def stuck_step assms)

text \<open>After a frame in which the handler returns, the wrapper is as it was made.\<close>

lemma frame_resets:
  assumes "\<not> ticking s" and "raf_callbacks s = []"
    and "fn this args (world s) = Returns w"
  shows "\<not> ticking (animation_frame (calls fn ((this, args) # cs) s))
       \<and> raf_callbacks (animation_frame (calls fn ((this, args) # cs) s)) = []"
  using assms by (simp add: calls_first animation_frame_def raf_callback_def)

text \<open>
  C1 as stated has the frame's callback apply the handler to the binding and the
  arguments of the \<^emph>\<open>last\<close> call of a burst. It does not. Two calls before a frame, the
  first bound to \<open>window\<close> with argument 1, the second bound to \<open>document\<close> with
  argument 2: the handler runs once, with the binding and the argument of the first.
\<close>

theorem rafThrottle_latest_call_counterexample:
  "applied (animation_frame
      (calls recording [(''window'', [1]), (''document'', [2])] (fresh [])))
     = [(''window'', [1])]
   \<and> applied (animation_frame
      (calls recording [(''window'', [1]), (''document'', [2])] (fresh [])))
     \<noteq> [(''document'', [2])]
   \<and> world (animation_frame
      (calls recording [(''window'', [1]), (''document'', [2])] (fresh [])))
     = [[1]]"
  by (simp add: calls_def rafThrottle_def fresh_def animation_frame_def raf_callback_def
      recording_def)

text \<open>
  C1, amended: a wrapper that is not ticking and has nothing registered is called one or
  more times before the next frame. No call applies the handler (the trace and the world
  are as before the burst, whatever its length), one callback is registered, and the
  frame applies the handler exactly once, to the binding and the arguments of the
  \<^emph>\<open>first\<close> call of the burst; the later calls are dropped.
\<close>

theorem rafThrottle_burst:
  assumes "\<not> ticking s" and "raf_callbacks s = []"
  shows "applied (calls fn ((this, args) # cs) s) = applied s
       \<and> world (calls fn ((this, args) # cs) s) = world s
       \<and> raf_callbacks (calls fn ((this, args) # cs) s) = [(fn, this, args)]
       \<and> applied (animation_frame (calls fn ((this, args) # cs) s)) = applied s @ [(this, args)]
       \<and> world (animation_frame (calls fn ((this, args) # cs) s)) =
           (case fn this args (world s) of Returns w \<Rightarrow> w | Throws w \<Rightarrow> w)"
  using assms
  by (cases "fn this args (world s)")
     (simp_all add: calls_first animation_frame_def raf_callback_def)

theorem rafThrottle_burst_witness:
  "\<not> ticking (fresh [] :: (string, nat list, nat list list) throttle)
   \<and> raf_callbacks (fresh [] :: (string, nat list, nat list list) throttle) = []
   \<and> applied (calls recording [(''window'', [1]), (''document'', [2]), (''window'', [3])] (fresh [])) = []
   \<and> applied (animation_frame
        (calls recording [(''window'', [1]), (''document'', [2]), (''window'', [3])] (fresh [])))
       = [(''window'', [1])]
   \<and> world (animation_frame
        (calls recording [(''window'', [1]), (''document'', [2]), (''window'', [3])] (fresh [])))
       = [[1]]"
  using rafThrottle_burst [of "fresh []" recording "''window''" "[1]"
      "[(''document'', [2]), (''window'', [3])]"]
  by (simp add: fresh_def recording_def)

text \<open>
  C2: when the handler throws in the frame's callback, \<open>ticking\<close> stays true and
  nothing is registered; from then on no call and no frame changes anything: every call
  finds \<open>ticking\<close> set and registers nothing, so the handler is never applied again.
\<close>

theorem rafThrottle_throw_sticks:
  assumes "\<not> ticking s" and "raf_callbacks s = []"
    and "fn this args (world s) = Throws w"
  shows "ticking (animation_frame (calls fn ((this, args) # cs) s))
       \<and> raf_callbacks (animation_frame (calls fn ((this, args) # cs) s)) = []
       \<and> applied (animation_frame (calls fn ((this, args) # cs) s)) = applied s @ [(this, args)]
       \<and> (\<forall>es. run fn es (animation_frame (calls fn ((this, args) # cs) s)) =
                animation_frame (calls fn ((this, args) # cs) s))"
proof -
  let ?s = "animation_frame (calls fn ((this, args) # cs) s)"
  have "?s = s\<lparr>raf_callbacks := [], ticking := True, world := w,
                applied := applied s @ [(this, args)]\<rparr>"
    using assms by (simp add: calls_first animation_frame_def raf_callback_def)
  then have "ticking ?s" and "raf_callbacks ?s = []" and "applied ?s = applied s @ [(this, args)]"
    by simp_all
  then show ?thesis
    by (simp add: stuck_run)
qed

theorem rafThrottle_throw_sticks_witness:
  "\<not> ticking (fresh [] :: (string, nat list, nat list list) throttle)
   \<and> raf_callbacks (fresh [] :: (string, nat list, nat list list) throttle) = []
   \<and> failing ''window'' [1] (world (fresh [] :: (string, nat list, nat list list) throttle)) = Throws []
   \<and> ticking (animation_frame (calls failing [(''window'', [1])] (fresh [])))
   \<and> applied (run failing [Call ''window'' [2], Frame, Call ''window'' [3], Frame]
        (animation_frame (calls failing [(''window'', [1])] (fresh []))))
       = [(''window'', [1])]"
  using rafThrottle_throw_sticks [of "fresh []" failing "''window''" "[1]" "[]" "[]"]
  by (simp add: fresh_def failing_def)

section \<open>Strings, split and trim\<close>

lemma js_inj: "js a = js b \<longleftrightarrow> a = b"
proof -
  have "inj (\<lambda>c. of_nat (of_char c :: nat) :: 16 word)"
  proof (rule injI)
    fix x y :: char
    assume h: "(of_nat (of_char x :: nat) :: 16 word) = of_nat (of_char y)"
    have "(of_char x :: nat) < 2 ^ 16" and "(of_char y :: nat) < 2 ^ 16"
      by (rule less_trans [OF nat_of_char_less_256], simp)+
    with h have "(of_char x :: nat) = of_char y"
      by (simp add: word_of_nat_eq_iff take_bit_nat_eq_self)
    then show "x = y" by simp
  qed
  then show ?thesis unfolding js_def by (simp add: inj_map_eq_map)
qed

lemma js_split_length: "length (js_split sep s) = Suc (length (filter (\<lambda>c. c = sep) s))"
  by (induction s) (auto split: list.splits)

lemma js_split_ne: "js_split sep s \<noteq> []"
  by (induction s) (auto split: list.splits)

lemma render_stack_map: "stack \<noteq> [] \<Longrightarrow> render_stack stack = map (Span span_class) stack"
proof -
  have "fold (\<lambda>tech children. children @ [Span span_class tech]) stack acc =
      acc @ map (Span span_class) stack" for acc
    by (induction stack arbitrary: acc) simp_all
  then show "stack \<noteq> [] \<Longrightarrow> render_stack stack = map (Span span_class) stack"
    by (simp add: render_stack_def)
qed

lemma render_parse:
  "s \<noteq> [] \<Longrightarrow>
   render_stack (parse_stack (Some s)) = map (\<lambda>t. Span span_class (trim t)) (js_split comma s)"
  by (simp add: parse_stack_def render_stack_map js_split_ne)

lemma render_go_react:
  "render_stack (parse_stack (Some (js ''Go, React''))) =
     [Span span_class (js ''Go''), Span span_class (js ''React'')]"
  by (simp add: render_stack_def parse_stack_def js_def comma_def trim_def isWhiteSpace_def)

lemma render_go_empty_react:
  "render_stack (parse_stack (Some (js ''Go,,React''))) =
     [Span span_class (js ''Go''), Span span_class [], Span span_class (js ''React'')]"
  by (simp add: render_stack_def parse_stack_def js_def comma_def trim_def isWhiteSpace_def)

lemma render_lone_comma:
  "render_stack (parse_stack (Some (js '',''))) = [Span span_class [], Span span_class []]"
  by (simp add: render_stack_def parse_stack_def js_def comma_def trim_def)

section \<open>The contact form\<close>

lemma submit_present:
  assumes "submitButton p = Some b"
  shows "submit r p = Returns (submit_settle r
           (p\<lparr>submitButton := Some (b\<lparr>disabled := True, label := js ''Sending...''\<rparr>)\<rparr>))"
  using assms by (simp add: submit_def submit_begin_def)

lemma submit_try_button: "submitButton (submit_try r p) = submitButton p"
  by (cases r) (simp_all add: submit_try_def showToast_def Let_def)

lemma msgs_distinct: "msg_network \<noteq> msg_rejected"
  by (simp add: msg_network_def msg_rejected_def)

lemma colours:
  "toast_colour (js ''success'') = js ''bg-green-600''"
  "toast_colour (js ''error'') = js ''bg-red-600''"
  by (simp_all add: toast_colour_def js_inj)

text \<open>
  C3: with the submit button in place, what the handler shows and whether it resets the
  fields depends on the result of \<open>fetch\<close> alone. An ok response adds exactly one
  toast, the green success toast, and the fields take their default values. A response
  that is not ok adds exactly one toast, the red toast of a rejected submission, and the
  fields keep their values. An exception of \<open>fetch\<close> adds exactly one toast, the red
  toast of a network error, whose text differs from the rejected one, and the fields
  keep their values.
\<close>

theorem submit_outcome:
  assumes "submitButton p = Some b"
  shows "(\<exists>q. submit (Resolved True) p = Returns q
           \<and> body q = body p @ [\<lparr>toast_id = created p, textContent = msg_success,
                                  className = toast_className (js ''success'')\<rparr>]
           \<and> field_values q = field_defaults p)
       \<and> (\<exists>q. submit (Resolved False) p = Returns q
           \<and> body q = body p @ [\<lparr>toast_id = created p, textContent = msg_rejected,
                                  className = toast_className (js ''error'')\<rparr>]
           \<and> field_values q = field_values p)
       \<and> (\<exists>q. submit Rejected p = Returns q
           \<and> body q = body p @ [\<lparr>toast_id = created p, textContent = msg_network,
                                  className = toast_className (js ''error'')\<rparr>]
           \<and> field_values q = field_values p)
       \<and> msg_network \<noteq> msg_rejected
       \<and> toast_colour (js ''success'') = js ''bg-green-600''
       \<and> toast_colour (js ''error'') = js ''bg-red-600''"
  using msgs_distinct colours
  by (simp add: submit_present [OF assms] submit_settle_def submit_finally_def submit_try_def
      showToast_def Let_def)

theorem submit_outcome_witness:
  "submitButton form_filled = Some send_button
   \<and> (\<exists>q. submit (Resolved True) form_filled = Returns q
         \<and> map textContent (body q) = [msg_success] \<and> field_values q = [[], [], []])
   \<and> (\<exists>q. submit (Resolved False) form_filled = Returns q
         \<and> map textContent (body q) = [msg_rejected]
         \<and> field_values q = [js ''Ada'', js ''ada@example.org'', js ''Hello''])
   \<and> (\<exists>q. submit Rejected form_filled = Returns q
         \<and> map textContent (body q) = [msg_network]
         \<and> field_values q = [js ''Ada'', js ''ada@example.org'', js ''Hello''])"
  using submit_outcome [of form_filled send_button]
  by (auto simp add: form_filled_def)

text \<open>
  C4: with the submit button in place, the handler first disables it and labels it
  \<open>Sending...\<close>; whatever the result of \<open>fetch\<close> (ok, not ok, or an exception), the
  handler completes, and the button is then enabled and labelled \<open>Send Message\<close>.
  The same holds when the page has changed while the handler was waiting: the part after
  the \<open>await\<close> enables and labels the button of whatever page it resumes on.
\<close>

theorem submit_cleanup:
  assumes "submitButton p = Some b"
  shows "submit_begin p =
           Returns (p\<lparr>submitButton := Some (b\<lparr>disabled := True, label := js ''Sending...''\<rparr>)\<rparr>)
       \<and> (\<exists>q. submit r p = Returns q
            \<and> submitButton q = Some (b\<lparr>disabled := False, label := js ''Send Message''\<rparr>))
       \<and> (submitButton resumed = Some waiting_button \<longrightarrow>
            submitButton (submit_settle r resumed) =
              Some (waiting_button\<lparr>disabled := False, label := js ''Send Message''\<rparr>))"
  using assms
  by (simp add: submit_present submit_settle_def submit_finally_def submit_try_button)
     (simp add: submit_begin_def)

theorem submit_cleanup_witness:
  "submitButton form_filled = Some send_button
   \<and> (\<exists>q. submit Rejected form_filled = Returns q
         \<and> submitButton q = Some \<lparr>disabled = False, label = js ''Send Message''\<rparr>)
   \<and> (\<exists>q. submit (Resolved False) form_filled = Returns q
         \<and> submitButton q = Some \<lparr>disabled = False, label = js ''Send Message''\<rparr>)
   \<and> (\<exists>q. submit (Resolved True) form_filled = Returns q
         \<and> submitButton q = Some \<lparr>disabled = False, label = js ''Send Message''\<rparr>)
   \<and> submitButton (form_filled\<lparr>now := 900\<rparr>) = Some send_button
   \<and> submitButton (submit_settle Rejected (form_filled\<lparr>now := 900\<rparr>)) =
        Some \<lparr>disabled = False, label = js ''Send Message''\<rparr>"
  using submit_cleanup [where p = form_filled and b = send_button and r = Rejected
      and resumed = "form_filled\<lparr>now := 900\<rparr>" and waiting_button = send_button]
    submit_cleanup [where p = form_filled and b = send_button and r = "Resolved False"]
    submit_cleanup [where p = form_filled and b = send_button and r = "Resolved True"]
  by (auto simp add: form_filled_def send_button_def)

section \<open>Scroll indicator and header\<close>

lemma floor_log2_bounds:
  "0 < n \<Longrightarrow> 2 ^ floor_log2 n \<le> n \<and> n < 2 ^ Suc (floor_log2 n)"
proof (induction n rule: floor_log2.induct)
  case (1 n)
  show ?case
  proof (cases "n < 2")
    case True
    with 1(2) have "n = 1" by simp
    then show ?thesis by (simp add: floor_log2.simps)
  next
    case False
    then have "0 < n div 2" by simp
    with 1(1) False have ih: "2 ^ floor_log2 (n div 2) \<le> n div 2"
      "n div 2 < 2 ^ Suc (floor_log2 (n div 2))" by simp_all
    have eq: "floor_log2 n = Suc (floor_log2 (n div 2))"
      using False by (subst floor_log2.simps) simp
    from ih show ?thesis unfolding eq by simp linarith
  qed
qed

lemma round_even_error: "\<bar>of_int (round_even x) - x\<bar> \<le> 1 / 2"
proof -
  have "of_int \<lfloor>x\<rfloor> \<le> x" and "x < of_int \<lfloor>x\<rfloor> + 1" by linarith+
  then show ?thesis
    unfolding round_even_def Let_def by (simp split: if_splits)
qed

lemma round_even_unique:
  assumes "\<bar>x - of_int n\<bar> < 1 / 2"
  shows "round_even x = n"
proof -
  have "\<bar>(of_int (round_even x) :: rat) - of_int n\<bar> < 1"
    using round_even_error [of x] assms by linarith
  then have "\<bar>(of_int (round_even x - n) :: rat)\<bar> < 1" by simp
  then have "\<bar>round_even x - n\<bar> < 1"
    by (metis of_int_abs of_int_less_1_iff)
  then show ?thesis by simp
qed

lemma round_even_nonneg: "0 \<le> x \<Longrightarrow> 0 \<le> round_even x"
  unfolding round_even_def Let_def by (simp add: zero_le_floor) 


lemma pow_le_nat_rat: "2 ^ k \<le> m \<Longrightarrow> (2 :: rat) ^ k \<le> of_nat m"
  using of_nat_le_iff [where ?'a = rat, of "2 ^ k" m] by simp

lemma nat_le_pow_rat: "m \<le> 2 ^ k \<Longrightarrow> (of_nat m :: rat) \<le> 2 ^ k"
  using of_nat_le_iff [where ?'a = rat, of m "2 ^ k"] by simp

lemma binade_bounds:
  assumes "0 < a"
  shows "2 powi binade a \<le> a \<and> a < 2 powi (binade a + 1)"
proof (cases "1 \<le> a")
  case True
  define n where "n = nat \<lfloor>a\<rfloor>"
  define k where "k = floor_log2 n"
  have n: "0 < n" using True by (simp add: n_def)
  have e: "binade a = int k" using True by (simp add: binade_def n_def k_def)
  from floor_log2_bounds [OF n]
  have lo: "2 ^ k \<le> n" and hi: "n + 1 \<le> 2 ^ Suc k" by (simp_all add: k_def)
  have "(of_nat n :: rat) = of_int \<lfloor>a\<rfloor>" using True by (simp add: n_def)
  then have na: "(of_nat n :: rat) \<le> a" and an: "a < of_nat n + 1" by linarith+
  from pow_le_nat_rat [OF lo] na have l: "(2 :: rat) ^ k \<le> a" by (rule order_trans)
  from nat_le_pow_rat [OF hi] have "(of_nat n :: rat) + 1 \<le> 2 ^ Suc k" by simp
  with an have h: "a < (2 :: rat) ^ Suc k" by linarith
  have "int k + 1 = int (Suc k)" by simp
  with l h show ?thesis unfolding e by (simp only: power_int_of_nat)
next
  case False
  with assms have inv: "1 < 1 / a" by simp
  define N where "N = \<lceil>1 / a\<rceil>"
  define m where "m = nat (N - 1)"
  define k where "k = floor_log2 m"
  have N2: "2 \<le> N" using inv unfolding N_def by linarith
  then have m: "0 < m" by (simp add: m_def)
  have e: "binade a = - int (Suc k)" using False by (simp add: binade_def N_def m_def k_def)
  from floor_log2_bounds [OF m]
  have lo: "2 ^ k \<le> m" and hi: "m + 1 \<le> 2 ^ Suc k" by (simp_all add: k_def)
  have mN: "(of_nat m :: rat) = of_int N - 1" using N2 by (simp add: m_def)
  have up: "1 / a \<le> of_int N" and dn: "of_int N - 1 < 1 / a" unfolding N_def by linarith+
  from nat_le_pow_rat [OF hi] have "(of_nat m :: rat) + 1 \<le> 2 ^ Suc k" by simp
  with mN up have "1 / a \<le> (2 :: rat) ^ Suc k" by linarith
  then have l: "1 / (2 :: rat) ^ Suc k \<le> a"
    using assms by (simp add: field_simps)
  from pow_le_nat_rat [OF lo] mN dn have "(2 :: rat) ^ k < 1 / a" by linarith
  then have h: "a < 1 / (2 :: rat) ^ k"
    using assms by (simp add: field_simps)
  have p1: "(2 :: rat) powi (- int (Suc k)) = 1 / 2 ^ Suc k"
    by (simp only: power_int_minus_divide power_int_of_nat)
  have "- int (Suc k) + 1 = - int k" by simp
  then have p2: "(2 :: rat) powi (- int (Suc k) + 1) = 1 / 2 ^ k"
    by (simp only: power_int_minus_divide power_int_of_nat)
  from l h show ?thesis unfolding e p1 p2 by simp
qed

lemma binade_unique:
  assumes "2 powi e \<le> a" and "a < 2 powi (e + 1)"
  shows "binade a = e"
proof -
  have pos: "0 < a" using assms(1) zero_less_power_int [of "2 :: rat" e] by linarith
  from binade_bounds [OF pos] have b: "2 powi binade a \<le> a" "a < 2 powi (binade a + 1)"
    by simp_all
  have "\<not> binade a < e"
  proof
    assume "binade a < e"
    then have "(2 :: rat) powi (binade a + 1) \<le> 2 powi e"
      by (intro power_int_increasing) simp_all
    with b(2) assms(1) show False by linarith
  qed
  moreover have "\<not> e < binade a"
  proof
    assume "e < binade a"
    then have "(2 :: rat) powi (e + 1) \<le> 2 powi binade a"
      by (intro power_int_increasing) simp_all
    with b(1) assms(2) show False by linarith
  qed
  ultimately show ?thesis by simp
qed


lemma ulp_half_bound:
  assumes "0 < a"
  shows "2 powi (max (binade a) (- 1022) - 52) / 2 \<le> a / 2 ^ 53 + 1 / 2 ^ 1075"
proof (cases "- 1022 \<le> binade a")
  case True
  then have "max (binade a) (- 1022) = binade a" by simp
  moreover have "(2 :: rat) powi (binade a - 52) = 2 powi binade a / 2 ^ 52"
    by (simp add: power_int_diff)
  moreover have "2 powi binade a \<le> a" using binade_bounds [OF assms] by simp
  ultimately show ?thesis by (simp add: field_simps)
next
  case False
  then have "max (binade a) (- 1022) = - 1022" by simp
  moreover have "(2 :: rat) powi (- 1022 - 52) / 2 = 1 / 2 ^ 1075" by simp
  ultimately show ?thesis using assms by simp
qed

lemma round_double_shape:
  assumes "x \<noteq> 0"
  obtains r where "0 \<le> r" and "\<bar>r - \<bar>x\<bar>\<bar> \<le> \<bar>x\<bar> / 2 ^ 53 + 1 / 2 ^ 1075"
    and "round_double x =
      (if 2 powi 1024 \<le> r then (if 0 < x then PosInf else NegInf)
       else Num (if 0 < x then r else - r))"
proof -
  define a where "a = \<bar>x\<bar>"
  define ulp :: rat where "ulp = 2 powi (max (binade a) (- 1022) - 52)"
  define m where "m = round_even (a / ulp)"
  define r :: rat where "r = of_int m * ulp"
  have a: "0 < a" using assms by (simp add: a_def)
  have ulp: "0 < ulp" by (simp add: ulp_def)
  have m: "0 \<le> m" unfolding m_def using a ulp by (intro round_even_nonneg) simp
  have r0: "0 \<le> r" unfolding r_def using m ulp by simp
  have "\<bar>of_int m - a / ulp\<bar> \<le> 1 / 2" unfolding m_def by (rule round_even_error)
  then have "\<bar>of_int m - a / ulp\<bar> * ulp \<le> 1 / 2 * ulp"
    using ulp by (intro mult_right_mono) simp_all
  moreover have "\<bar>of_int m - a / ulp\<bar> * ulp = \<bar>r - a\<bar>"
  proof -
    have "\<bar>of_int m - a / ulp\<bar> * ulp = \<bar>(of_int m - a / ulp) * ulp\<bar>"
      using ulp by (simp add: abs_mult)
    also have "(of_int m - a / ulp) * ulp = r - a"
      using ulp by (simp add: r_def field_simps)
    finally show ?thesis .
  qed
  ultimately have "\<bar>r - a\<bar> \<le> ulp / 2" by simp
  also have "ulp / 2 \<le> a / 2 ^ 53 + 1 / 2 ^ 1075"
    unfolding ulp_def by (rule ulp_half_bound [OF a])
  finally have err: "\<bar>r - \<bar>x\<bar>\<bar> \<le> \<bar>x\<bar> / 2 ^ 53 + 1 / 2 ^ 1075" by (simp add: a_def)
  have "round_double x =
      (if 2 powi 1024 \<le> r then (if 0 < x then PosInf else NegInf)
       else Num (if 0 < x then r else - r))"
    using assms unfolding round_double_def Let_def r_def m_def ulp_def a_def by simp
  with r0 err show thesis by (rule that)
qed


lemma round_double_pos:
  assumes "0 < x"
  shows "round_double x = PosInf \<or>
    (\<exists>y. round_double x = Num y \<and> 0 \<le> y \<and> \<bar>y - x\<bar> \<le> x / 2 ^ 53 + 1 / 2 ^ 1075)"
proof -
  from assms have "x \<noteq> 0" by simp
  then obtain r where "0 \<le> r" and "\<bar>r - \<bar>x\<bar>\<bar> \<le> \<bar>x\<bar> / 2 ^ 53 + 1 / 2 ^ 1075"
    and "round_double x =
      (if 2 powi 1024 \<le> r then (if 0 < x then PosInf else NegInf)
       else Num (if 0 < x then r else - r))"
    by (rule round_double_shape)
  with assms show ?thesis by (cases "2 powi 1024 \<le> r") simp_all
qed

lemma round_double_neg:
  assumes "x < 0"
  shows "round_double x = NegInf \<or>
    (\<exists>y. round_double x = Num y \<and> y \<le> 0 \<and> \<bar>y - x\<bar> \<le> - x / 2 ^ 53 + 1 / 2 ^ 1075)"
proof -
  from assms have "x \<noteq> 0" by simp
  then obtain r where r: "0 \<le> r" and e: "\<bar>r - \<bar>x\<bar>\<bar> \<le> \<bar>x\<bar> / 2 ^ 53 + 1 / 2 ^ 1075"
    and rd: "round_double x =
      (if 2 powi 1024 \<le> r then (if 0 < x then PosInf else NegInf)
       else Num (if 0 < x then r else - r))"
    by (rule round_double_shape)
  show ?thesis
  proof (cases "2 powi 1024 \<le> r")
    case True
    with rd assms show ?thesis by simp
  next
    case False
    with rd assms have "round_double x = Num (- r)" by simp
    moreover from e assms have "\<bar>- r - x\<bar> \<le> - x / 2 ^ 53 + 1 / 2 ^ 1075" by simp
    ultimately show ?thesis using r by simp
  qed
qed

lemma round_double_small:
  assumes "\<bar>x\<bar> \<le> 400"
  shows "\<exists>y. round_double x = Num y \<and> \<bar>y - x\<bar> \<le> \<bar>x\<bar> / 2 ^ 53 + 1 / 2 ^ 1075"
proof (cases "x = 0")
  case True
  then show ?thesis by (simp add: round_double_def)
next
  case False
  then obtain r where r: "0 \<le> r" and e: "\<bar>r - \<bar>x\<bar>\<bar> \<le> \<bar>x\<bar> / 2 ^ 53 + 1 / 2 ^ 1075"
    and rd: "round_double x =
      (if 2 powi 1024 \<le> r then (if 0 < x then PosInf else NegInf)
       else Num (if 0 < x then r else - r))"
    by (rule round_double_shape)
  from e assms have "r \<le> 801" by simp
  then have "\<not> 2 powi 1024 \<le> r" by simp
  with rd have y: "round_double x = Num (if 0 < x then r else - r)" by simp
  have "\<bar>(if 0 < x then r else - r) - x\<bar> = \<bar>r - \<bar>x\<bar>\<bar>" by (cases "0 < x") auto
  with e y show ?thesis by simp
qed

lemma min_max_clamp: "Math_min (Math_max (Num r) (Num 0)) (Num 1) = Num (clamp r 0 1)"
  by (simp add: Math_min_def Math_max_def clamp_def)

lemma clamp_close: "\<bar>clamp r 0 1 - clamp x 0 1\<bar> \<le> \<bar>r - x\<bar>"
  by (simp add: clamp_def)

lemma clamp_range: "0 \<le> clamp r 0 1 \<and> clamp r 0 1 \<le> 1"
  by (simp add: clamp_def)


lemma small_error:
  fixes x y c :: rat
  assumes "\<bar>y - x\<bar> \<le> \<bar>x\<bar> / 2 ^ 53 + 1 / 2 ^ 1075" and "\<bar>x\<bar> \<le> c"
  shows "\<bar>y - x\<bar> \<le> (c + 1 / 10) / 2 ^ 53"
proof -
  have "\<bar>x\<bar> / 2 ^ 53 \<le> c / 2 ^ 53"
    using assms(2) by (intro divide_right_mono) simp_all
  moreover have "(1 :: rat) / 2 ^ 1075 \<le> 1 / 10 / 2 ^ 53" by simp
  ultimately have "\<bar>y - x\<bar> \<le> c / 2 ^ 53 + 1 / 10 / 2 ^ 53"
    using assms(1) by linarith
  then show ?thesis by (simp add: add_divide_distrib)
qed

lemma abs_le_via:
  fixes a b :: rat
  assumes "\<bar>a - b\<bar> \<le> d" and "\<bar>b\<bar> \<le> c" and "c + d \<le> e"
  shows "\<bar>a\<bar> \<le> e"
  using assms by linarith

lemma roundtrip_mid:
  assumes "\<bar>x\<bar> \<le> 3 / 2"
  shows "\<exists>r. js_div (js_mul (round_double x) (Num 100)) (Num 100) = Some (Num r)
             \<and> \<bar>r - x\<bar> \<le> 1 / 2 ^ 50"
proof -
  from assms have "\<bar>x\<bar> \<le> 400" by simp
  then obtain q where q: "round_double x = Num q"
    and eq: "\<bar>q - x\<bar> \<le> \<bar>x\<bar> / 2 ^ 53 + 1 / 2 ^ 1075"
    using round_double_small by blast
  from small_error [OF eq assms] have e1: "\<bar>q - x\<bar> \<le> 8 / 5 / 2 ^ 53" by simp
  have q2: "\<bar>q\<bar> \<le> 8 / 5"
    by (rule abs_le_via [OF e1 assms]) simp
  then have q3: "\<bar>q * 100\<bar> \<le> 160" by simp
  then have "\<bar>q * 100\<bar> \<le> 400" by simp
  then obtain p where p: "round_double (q * 100) = Num p"
    and ep: "\<bar>p - q * 100\<bar> \<le> \<bar>q * 100\<bar> / 2 ^ 53 + 1 / 2 ^ 1075"
    using round_double_small by blast
  from small_error [OF ep q3] have e2': "\<bar>p - q * 100\<bar> \<le> 1601 / 10 / 2 ^ 53" by simp
  have "p / 100 - q = (p - q * 100) / 100" by (simp add: diff_divide_distrib)
  then have "\<bar>p / 100 - q\<bar> = \<bar>p - q * 100\<bar> / 100" by (simp only: abs_divide)
  with e2' have e2: "\<bar>p / 100 - q\<bar> \<le> 17 / 10 / 2 ^ 53" by simp
  have p2: "\<bar>p / 100\<bar> \<le> 17 / 10"
    by (rule abs_le_via [OF e2 q2]) simp
  then have "\<bar>p / 100\<bar> \<le> 400" by simp
  then obtain r where r: "round_double (p / 100) = Num r"
    and er: "\<bar>r - p / 100\<bar> \<le> \<bar>p / 100\<bar> / 2 ^ 53 + 1 / 2 ^ 1075"
    using round_double_small by blast
  from small_error [OF er p2] have e3: "\<bar>r - p / 100\<bar> \<le> 9 / 5 / 2 ^ 53" by simp
  have "js_div (js_mul (round_double x) (Num 100)) (Num 100) = Some (Num r)"
    by (simp add: q p r)
  moreover have "\<bar>r - x\<bar> \<le> 1 / 2 ^ 50"
  proof -
    have "\<bar>r - x\<bar> \<le> \<bar>r - p / 100\<bar> + \<bar>p / 100 - q\<bar> + \<bar>q - x\<bar>" by linarith
    also have "\<dots> \<le> 9 / 5 / 2 ^ 53 + 17 / 10 / 2 ^ 53 + 8 / 5 / 2 ^ 53"
      using e1 e2 e3 by (intro add_mono)
    also have "\<dots> \<le> 1 / 2 ^ 50" by simp
    finally show ?thesis .
  qed
  ultimately show ?thesis by blast
qed


lemma grow_error:
  fixes x y :: rat
  assumes "\<bar>y - x\<bar> \<le> x / 2 ^ 53 + 1 / 2 ^ 1075" and "c \<le> x" and "1 \<le> c"
  shows "c * (9 / 10) \<le> y"
proof -
  have "(1 :: rat) / 2 ^ 1075 \<le> 1 / 2 ^ 53" by simp
  moreover have "(1 :: rat) / 2 ^ 53 \<le> x / 2 ^ 53"
    using assms(2,3) by (intro divide_right_mono) simp_all
  ultimately have "x - 2 * (x / 2 ^ 53) \<le> y"
    using assms(1) by linarith
  moreover have "x * (9 / 10) \<le> x - 2 * (x / 2 ^ 53)"
    using assms(2,3) by (simp add: field_simps)
  moreover have "c * (9 / 10) \<le> x * (9 / 10)"
    using assms(2) by simp
  ultimately show ?thesis by linarith
qed

lemma roundtrip_high:
  assumes "3 / 2 < x"
  shows "\<exists>r. js_div (js_mul (round_double x) (Num 100)) (Num 100) = Some r
             \<and> Math_min (Math_max r (Num 0)) (Num 1) = Num 1"
proof -
  from assms have x0: "0 < x" by simp
  consider "round_double x = PosInf"
    | q where "round_double x = Num q" "\<bar>q - x\<bar> \<le> x / 2 ^ 53 + 1 / 2 ^ 1075"
    using round_double_pos [OF x0] by blast
  then show ?thesis
  proof cases
    case 1
    then show ?thesis by (simp add: Math_min_def Math_max_def)
  next
    case (2 q)
    from grow_error [OF 2(2), of "3 / 2"] assms have q: "27 / 20 \<le> q" by simp
    then have q0: "0 < q * 100" by simp
    consider "round_double (q * 100) = PosInf"
      | p where "round_double (q * 100) = Num p"
          "\<bar>p - q * 100\<bar> \<le> q * 100 / 2 ^ 53 + 1 / 2 ^ 1075"
      using round_double_pos [OF q0] by blast
    then show ?thesis
    proof cases
      case 1
      with 2(1) show ?thesis by (simp add: Math_min_def Math_max_def)
    next
      case (2 p)
      from grow_error [OF 2(2), of 135] q have p: "243 / 2 \<le> p" by simp
      then have p0: "0 < p / 100" by simp
      consider "round_double (p / 100) = PosInf"
        | r where "round_double (p / 100) = Num r"
            "\<bar>r - p / 100\<bar> \<le> p / 100 / 2 ^ 53 + 1 / 2 ^ 1075"
        using round_double_pos [OF p0] by blast
      then show ?thesis
      proof cases
        case 1
        with \<open>round_double x = Num q\<close> \<open>round_double (q * 100) = Num p\<close>
        show ?thesis by (simp add: Math_min_def Math_max_def)
      next
        case (2 r)
        from grow_error [OF 2(2), of "243 / 200"] p have "1 \<le> r" by simp
        with 2(1) \<open>round_double x = Num q\<close> \<open>round_double (q * 100) = Num p\<close>
        show ?thesis by (simp add: Math_min_def Math_max_def)
      qed
    qed
  qed
qed


lemma roundtrip_low:
  assumes "x < - (3 / 2)"
  shows "\<exists>r. js_div (js_mul (round_double x) (Num 100)) (Num 100) = Some r
             \<and> Math_min (Math_max r (Num 0)) (Num 1) = Num 0"
proof -
  from assms have x0: "x < 0" by simp
  consider "round_double x = NegInf"
    | q where "round_double x = Num q" "\<bar>q - x\<bar> \<le> - x / 2 ^ 53 + 1 / 2 ^ 1075"
    using round_double_neg [OF x0] by blast
  then show ?thesis
  proof cases
    case 1
    then show ?thesis by (simp add: Math_min_def Math_max_def)
  next
    case (2 q)
    from 2(2) have "\<bar>- q - - x\<bar> \<le> - x / 2 ^ 53 + 1 / 2 ^ 1075" by simp
    from grow_error [OF this, of "3 / 2"] assms have q: "q \<le> - (27 / 20)" by simp
    then have q0: "q * 100 < 0" by simp
    consider "round_double (q * 100) = NegInf"
      | p where "round_double (q * 100) = Num p"
          "\<bar>p - q * 100\<bar> \<le> - (q * 100) / 2 ^ 53 + 1 / 2 ^ 1075"
      using round_double_neg [OF q0] by blast
    then show ?thesis
    proof cases
      case 1
      with 2(1) show ?thesis by (simp add: Math_min_def Math_max_def)
    next
      case (2 p)
      from 2(2) have "\<bar>- p - - (q * 100)\<bar> \<le> - (q * 100) / 2 ^ 53 + 1 / 2 ^ 1075" by simp
      from grow_error [OF this, of 135] q have p: "p \<le> - (243 / 2)" by simp
      then have p0: "p / 100 < 0" by simp
      consider "round_double (p / 100) = NegInf"
        | r where "round_double (p / 100) = Num r"
            "\<bar>r - p / 100\<bar> \<le> - (p / 100) / 2 ^ 53 + 1 / 2 ^ 1075"
        using round_double_neg [OF p0] by blast
      then show ?thesis
      proof cases
        case 1
        with \<open>round_double x = Num q\<close> \<open>round_double (q * 100) = Num p\<close>
        show ?thesis by (simp add: Math_min_def Math_max_def)
      next
        case (2 r)
        from 2(2) have "\<bar>- r - - (p / 100)\<bar> \<le> - (p / 100) / 2 ^ 53 + 1 / 2 ^ 1075" by simp
        from grow_error [OF this, of "243 / 200"] p have "r \<le> - 1" by simp
        with 2(1) \<open>round_double x = Num q\<close> \<open>round_double (q * 100) = Num p\<close>
        show ?thesis by (simp add: Math_min_def Math_max_def)
      qed
    qed
  qed
qed

lemma updateIndicator_scrollable:
  assumes "0 < scrollHeight - clientHeight"
  shows "js_div (Num scrollTop) (Num (of_int (scrollHeight - clientHeight))) =
           Some (round_double (scrollTop / of_int (scrollHeight - clientHeight)))"
    and "updateIndicator scrollTop scrollHeight clientHeight =
      map_option (\<lambda>x. Math_min (Math_max x (Num 0)) (Num 1))
        (js_div (js_mul (round_double (scrollTop / of_int (scrollHeight - clientHeight)))
                  (Num 100)) (Num 100))"
proof -
  from assms have nz: "(of_int (scrollHeight - clientHeight) :: rat) \<noteq> 0" by simp
  then show d: "js_div (Num scrollTop) (Num (of_int (scrollHeight - clientHeight))) =
           Some (round_double (scrollTop / of_int (scrollHeight - clientHeight)))"
    by (simp only: js_div.simps if_False jsnum.case)
  from assms show "updateIndicator scrollTop scrollHeight clientHeight =
      map_option (\<lambda>x. Math_min (Math_max x (Num 0)) (Num 1))
        (js_div (js_mul (round_double (scrollTop / of_int (scrollHeight - clientHeight)))
                  (Num 100)) (Num 100))"
    unfolding updateIndicator_def Let_def
    by (simp only: if_True d option.map option.case)
qed

lemma round_double_eval:
  assumes "0 < x" and "2 powi e \<le> x" and "x < 2 powi (e + 1)" and "- 1022 \<le> e"
    and "\<bar>x / 2 powi (e - 52) - of_int m\<bar> < 1 / 2"
    and "of_int m * 2 powi (e - 52) < (2 :: rat) powi 1024"
  shows "round_double x = Num (of_int m * 2 powi (e - 52))"
proof -
  have b: "binade x = e" using assms(2,3) by (rule binade_unique)
  with assms(4) have mx: "max (binade \<bar>x\<bar>) (- 1022) = e" using assms(1) by simp
  have m: "round_even (\<bar>x\<bar> / 2 powi (e - 52)) = m"
    using assms(1,5) by (intro round_even_unique) simp
  show ?thesis
    unfolding round_double_def Let_def mx m using assms(1,6) by simp
qed

lemma quotient_100_300: "round_double (1 / 3) = Num (6004799503160661 / 18014398509481984)"
  using round_double_eval [of "1 / 3" "- 2" 6004799503160661] by simp

lemma percent_100_300:
  "round_double (6004799503160661 / 18014398509481984 * 100) =
     Num (4691249611844266 / 140737488355328)"
  using round_double_eval [of "6004799503160661 / 18014398509481984 * 100" 5 4691249611844266]
  by simp

lemma scale_100_300:
  "round_double (4691249611844266 / 140737488355328 / 100) =
     Num (6004799503160660 / 18014398509481984)"
  using round_double_eval [of "4691249611844266 / 140737488355328 / 100" "- 2" 6004799503160660]
  by simp

text \<open>
  C5 as stated has the scale equal to \<open>clamp(scrollTop / (scrollHeight - clientHeight), 0, 1)\<close>.
  It is not always. At \<open>scrollTop = 100\<close>, \<open>scrollHeight = 1300\<close>,
  \<open>clientHeight = 1000\<close> the quotient \<open>100 / 300\<close> is the double
  \<open>6004799503160661 / 2 ^ 54\<close> (printed 0.3333333333333333), already between 0 and 1;
  multiplied by 100 and divided by 100 again, each time rounded, it comes back as
  \<open>6004799503160660 / 2 ^ 54\<close> (printed 0.33333333333333326), and that is the scale
  written: neither the double quotient nor the exact third.
\<close>

theorem updateIndicator_clamp_counterexample:
  "updateIndicator 100 1300 1000 = Some (Num (6004799503160660 / 18014398509481984))
   \<and> js_div (Num 100) (Num (of_int (1300 - 1000))) =
        Some (Num (6004799503160661 / 18014398509481984))
   \<and> updateIndicator 100 1300 1000 \<noteq>
        Some (Num (clamp (6004799503160661 / 18014398509481984) 0 1))
   \<and> updateIndicator 100 1300 1000 \<noteq> Some (Num (clamp (100 / of_int (1300 - 1000)) 0 1))"
  using quotient_100_300 percent_100_300 scale_100_300
  by (simp add: updateIndicator_def Math_min_def Math_max_def clamp_def)

text \<open>
  C5, amended: when \<open>scrollHeight - clientHeight\<close> is positive, the scale is
  \<open>Math.min(Math.max(r, 0), 1)\<close> for \<open>r\<close> the quotient of \<open>scrollTop\<close> by it,
  multiplied by 100 and divided by 100 again, each of the three operations rounded to a
  double; it is a number from 0 to 1, and it differs from the exact
  \<open>clamp(scrollTop / (scrollHeight - clientHeight), 0, 1)\<close> by at most \<open>2 ^ -50\<close>.
  When \<open>scrollHeight - clientHeight\<close> is zero or negative the scale is 0. In no scroll
  state is a division by zero performed.
\<close>

theorem updateIndicator_rounded:
  "(scrollHeight - clientHeight > 0 \<longrightarrow>
      (\<exists>v. updateIndicator scrollTop scrollHeight clientHeight = Some (Num v)
          \<and> 0 \<le> v \<and> v \<le> 1
          \<and> \<bar>v - clamp (scrollTop / of_int (scrollHeight - clientHeight)) 0 1\<bar> \<le> 1 / 2 ^ 50)
      \<and> (\<exists>q r. js_div (Num scrollTop) (Num (of_int (scrollHeight - clientHeight))) = Some q
          \<and> js_div (js_mul q (Num 100)) (Num 100) = Some r
          \<and> updateIndicator scrollTop scrollHeight clientHeight =
                Some (Math_min (Math_max r (Num 0)) (Num 1))))
   \<and> (scrollHeight - clientHeight \<le> 0 \<longrightarrow>
      updateIndicator scrollTop scrollHeight clientHeight = Some (Num 0))
   \<and> updateIndicator scrollTop scrollHeight clientHeight \<noteq> None"
proof (cases "scrollHeight - clientHeight > 0")
  case False
  then have "updateIndicator scrollTop scrollHeight clientHeight = Some (Num 0)"
    unfolding updateIndicator_def Let_def by (simp add: Math_min_def Math_max_def round_double_def)
  with False show ?thesis by simp
next
  case True
  define x where "x = scrollTop / of_int (scrollHeight - clientHeight)"
  note u = updateIndicator_scrollable [OF True, of scrollTop, folded x_def]
  have "\<exists>r v. js_div (js_mul (round_double x) (Num 100)) (Num 100) = Some r
      \<and> Math_min (Math_max r (Num 0)) (Num 1) = Num v
      \<and> 0 \<le> v \<and> v \<le> 1 \<and> \<bar>v - clamp x 0 1\<bar> \<le> 1 / 2 ^ 50"
  proof -
    consider "\<bar>x\<bar> \<le> 3 / 2" | "3 / 2 < x" | "x < - (3 / 2)" by linarith
    then show ?thesis
    proof cases
      case 1
      from roundtrip_mid [OF 1] obtain r
        where r: "js_div (js_mul (round_double x) (Num 100)) (Num 100) = Some (Num r)"
          and e: "\<bar>r - x\<bar> \<le> 1 / 2 ^ 50" by blast
      from clamp_close [of r x] e have "\<bar>clamp r 0 1 - clamp x 0 1\<bar> \<le> 1 / 2 ^ 50"
        by (rule order_trans)
      with r clamp_range [of r] min_max_clamp [of r] show ?thesis by blast
    next
      case 2
      from roundtrip_high [OF 2] obtain r
        where r: "js_div (js_mul (round_double x) (Num 100)) (Num 100) = Some r"
          and m: "Math_min (Math_max r (Num 0)) (Num 1) = Num 1" by blast
      from 2 have "clamp x 0 1 = 1" by (simp add: clamp_def)
      with r m show ?thesis by (intro exI [of _ r] exI [of _ 1]) simp
    next
      case 3
      from roundtrip_low [OF 3] obtain r
        where r: "js_div (js_mul (round_double x) (Num 100)) (Num 100) = Some r"
          and m: "Math_min (Math_max r (Num 0)) (Num 1) = Num 0" by blast
      from 3 have "clamp x 0 1 = 0" by (simp add: clamp_def)
      with r m show ?thesis by (intro exI [of _ r] exI [of _ 0]) simp
    qed
  qed
  then obtain r v where r: "js_div (js_mul (round_double x) (Num 100)) (Num 100) = Some r"
    and m: "Math_min (Math_max r (Num 0)) (Num 1) = Num v"
    and v: "0 \<le> v" "v \<le> 1" "\<bar>v - clamp x 0 1\<bar> \<le> 1 / 2 ^ 50" by blast
  have res: "updateIndicator scrollTop scrollHeight clientHeight = Some (Num v)"
    by (simp only: u(2) r option.map m)
  have "updateIndicator scrollTop scrollHeight clientHeight =
      Some (Math_min (Math_max r (Num 0)) (Num 1))"
    by (simp only: res m)
  with u(1) r
  have "\<exists>q r. js_div (Num scrollTop) (Num (of_int (scrollHeight - clientHeight))) = Some q
          \<and> js_div (js_mul q (Num 100)) (Num 100) = Some r
          \<and> updateIndicator scrollTop scrollHeight clientHeight =
                Some (Math_min (Math_max r (Num 0)) (Num 1))"
    by blast
  moreover from res v
  have "\<exists>v. updateIndicator scrollTop scrollHeight clientHeight = Some (Num v)
          \<and> 0 \<le> v \<and> v \<le> 1
          \<and> \<bar>v - clamp (scrollTop / of_int (scrollHeight - clientHeight)) 0 1\<bar> \<le> 1 / 2 ^ 50"
    unfolding x_def by blast
  moreover from res have "updateIndicator scrollTop scrollHeight clientHeight \<noteq> None"
    by (simp only: option.distinct not_False_eq_True)
  moreover from True have "\<not> scrollHeight - clientHeight \<le> 0" by simp
  ultimately show ?thesis by blast
qed


theorem updateIndicator_rounded_witness:
  "(1300 :: int) - 1000 > 0
   \<and> updateIndicator 100 1300 1000 = Some (Num (6004799503160660 / 18014398509481984))
   \<and> \<bar>6004799503160660 / 18014398509481984 - clamp (100 / of_int (1300 - 1000)) 0 1\<bar>
        \<le> 1 / 2 ^ 50
   \<and> (800 :: int) - 800 \<le> 0 \<and> updateIndicator 317 800 800 = Some (Num 0)"
  using updateIndicator_rounded [where scrollTop = 100 and scrollHeight = 1300
      and clientHeight = 1000]
    updateIndicator_rounded [where scrollTop = 317 and scrollHeight = 800
      and clientHeight = 800]
    quotient_100_300 percent_100_300 scale_100_300
  by (simp add: updateIndicator_def Math_min_def Math_max_def clamp_def)

text \<open>
  C6: after the header handler has run at the vertical offset \<open>scrollY\<close>, the header
  carries the class \<open>scrolled\<close> if and only if the offset is above 50, whatever its
  classes were before; at 50 the class is absent, at 51 it is present. Called through
  its throttle, the handler has run when the next frame is over.
\<close>

theorem header_scrolled_iff:
  "(js ''scrolled'' \<in> set (header (header_handler w)) \<longleftrightarrow> scrollY w > 50)
   \<and> js ''scrolled'' \<notin> set (header (header_handler (w\<lparr>scrollY := 50\<rparr>)))
   \<and> js ''scrolled'' \<in> set (header (header_handler (w\<lparr>scrollY := 51\<rparr>)))
   \<and> world (animation_frame (onHeaderScroll this args (fresh w))) = header_handler w"
  by (simp add: header_handler_def classList_toggle_def onHeaderScroll_def rafThrottle_def
      fresh_def animation_frame_def raf_callback_def)

section \<open>The project modal\<close>

lemma card_click_present:
  assumes "modalTitle p = Some t" and "modalDescription p = Some d"
    and "modalStack p = Some ns" and "modal p = Some disp"
  shows "card_click c p = Returns (p\<lparr>
      modalTitle := Some (or_default (data_title c) (js ''Project Details'')),
      modalDescription := Some (or_default (data_description c) (js ''No description available.'')),
      modalStack := Some (render_stack (parse_stack (data_stack c))),
      modal := Some (js ''block''),
      closeModal := map_option (\<lambda>_. True) (closeModal p),
      overflow := js ''hidden''\<rparr>)"
  using assms by (simp add: card_click_def Let_def)

text \<open>
  C7: on a page that has the modal's elements, a click on a card returns, and then: a
  card whose \<open>data-stack\<close> is \<open>Go, React\<close> leaves exactly two labels in the stack
  container, \<open>Go\<close> followed by \<open>React\<close>; a card without \<open>data-stack\<close> leaves the
  text \<open>Tech stack not specified.\<close> there; a card without \<open>data-title\<close> gets the
  title \<open>Project Details\<close>, one without \<open>data-description\<close> the description
  \<open>No description available.\<close>
\<close>

theorem card_click_renders:
  assumes "modalTitle p = Some t" and "modalDescription p = Some d"
    and "modalStack p = Some ns" and "modal p = Some disp"
  shows "\<exists>q. card_click c p = Returns q
      \<and> (data_stack c = Some (js ''Go, React'') \<longrightarrow>
           modalStack q = Some [Span span_class (js ''Go''), Span span_class (js ''React'')])
      \<and> (data_stack c = None \<longrightarrow>
           modalStack q = Some [TextNode (js ''Tech stack not specified.'')])
      \<and> (data_title c = None \<longrightarrow> modalTitle q = Some (js ''Project Details''))
      \<and> (data_description c = None \<longrightarrow>
           modalDescription q = Some (js ''No description available.''))"
  using render_go_react
  by (simp add: card_click_present [OF assms] or_default_def)
     (simp add: render_stack_def parse_stack_def)

theorem card_click_renders_witness:
  "modalTitle page_closed = Some [] \<and> modalDescription page_closed = Some []
   \<and> modalStack page_closed = Some [] \<and> modal page_closed = Some []
   \<and> (\<exists>q. card_click (card_with_stack (js ''Go, React'')) page_closed = Returns q
         \<and> modalStack q = Some [Span span_class (js ''Go''), Span span_class (js ''React'')]
         \<and> modalTitle q = Some (js ''Project Details'')
         \<and> modalDescription q = Some (js ''No description available.''))
   \<and> (\<exists>q. card_click card_bare page_closed = Returns q
         \<and> modalStack q = Some [TextNode (js ''Tech stack not specified.'')])"
  using card_click_renders [of page_closed "[]" "[]" "[]" "[]" "card_with_stack (js ''Go, React'')"]
    card_click_renders [of page_closed "[]" "[]" "[]" "[]" card_bare]
  by (auto simp add: page_closed_def card_with_stack_def card_bare_def)

text \<open>
  C8: on a page that has the modal's elements, a click on a card returns, and then: a
  \<open>data-stack\<close> that is not empty leaves one label for each piece between its commas,
  each piece trimmed and none left out, so one label more than it has commas; and the
  stack container holds the text \<open>Tech stack not specified.\<close> if and only if the card
  has no \<open>data-stack\<close> or an empty one.
\<close>

theorem stack_tokens_not_filtered:
  assumes "modalTitle p = Some t" and "modalDescription p = Some d"
    and "modalStack p = Some ns" and "modal p = Some disp"
  shows "\<exists>q. card_click c p = Returns q
      \<and> (\<forall>s. data_stack c = Some s \<and> s \<noteq> [] \<longrightarrow>
            modalStack q = Some (map (\<lambda>t. Span span_class (trim t)) (js_split comma s))
          \<and> length (js_split comma s) = Suc (length (filter (\<lambda>x. x = comma) s)))
      \<and> (modalStack q = Some [TextNode (js ''Tech stack not specified.'')]
           \<longleftrightarrow> data_stack c = None \<or> data_stack c = Some [])"
proof -
  let ?q = "p\<lparr>
      modalTitle := Some (or_default (data_title c) (js ''Project Details'')),
      modalDescription := Some (or_default (data_description c) (js ''No description available.'')),
      modalStack := Some (render_stack (parse_stack (data_stack c))),
      modal := Some (js ''block''),
      closeModal := map_option (\<lambda>_. True) (closeModal p),
      overflow := js ''hidden''\<rparr>"
  have q: "card_click c p = Returns ?q"
    by (rule card_click_present [OF assms])
  have a: "modalStack ?q = Some (map (\<lambda>t. Span span_class (trim t)) (js_split comma s))"
    if "data_stack c = Some s" and "s \<noteq> []" for s
    using that by (simp add: render_parse)
  have b: "modalStack ?q = Some [TextNode (js ''Tech stack not specified.'')]
           \<longleftrightarrow> data_stack c = None \<or> data_stack c = Some []"
  proof (cases "data_stack c")
    case None
    then show ?thesis by (simp add: parse_stack_def render_stack_def)
  next
    case (Some s)
    show ?thesis
    proof (cases "s = []")
      case True
      with Some show ?thesis by (simp add: parse_stack_def render_stack_def)
    next
      case False
      obtain w ws where "js_split comma s = w # ws"
        using js_split_ne [of comma s] by (cases "js_split comma s") auto
      with Some False show ?thesis by (simp add: render_parse)
    qed
  qed
  show ?thesis
    using q a b js_split_length by blast
qed

theorem stack_tokens_not_filtered_witness:
  "modalTitle page_closed = Some [] \<and> modalDescription page_closed = Some []
   \<and> modalStack page_closed = Some [] \<and> modal page_closed = Some []
   \<and> (\<exists>q. card_click (card_with_stack (js ''Go,,React'')) page_closed = Returns q
         \<and> modalStack q =
             Some [Span span_class (js ''Go''), Span span_class [], Span span_class (js ''React'')])
   \<and> (\<exists>q. card_click (card_with_stack (js '','')) page_closed = Returns q
         \<and> modalStack q = Some [Span span_class [], Span span_class []])
   \<and> (\<exists>q. card_click (card_with_stack []) page_closed = Returns q
         \<and> modalStack q = Some [TextNode (js ''Tech stack not specified.'')])"
  using stack_tokens_not_filtered [of page_closed "[]" "[]" "[]" "[]" "card_with_stack (js ''Go,,React'')"]
    stack_tokens_not_filtered [of page_closed "[]" "[]" "[]" "[]" "card_with_stack (js '','')"]
    stack_tokens_not_filtered [of page_closed "[]" "[]" "[]" "[]" "card_with_stack []"]
    render_go_empty_react render_lone_comma
  by (simp add: page_closed_def card_with_stack_def card_click_def Let_def)

text \<open>
  C9: the Escape key, pressed while the modal's \<open>display\<close> is \<open>block\<close>, sets it to
  \<open>none\<close> and the body's \<open>overflow\<close> to the empty string; pressed while the
  \<open>display\<close> is anything else, or without a modal, it changes nothing.
\<close>

theorem escape_key:
  "(modal p = Some (js ''block'') \<longrightarrow>
      keydown (js ''Escape'') p = p\<lparr>modal := Some (js ''none''), overflow := []\<rparr>)
   \<and> (modal p \<noteq> Some (js ''block'') \<longrightarrow> keydown (js ''Escape'') p = p)"
  by (auto simp add: keydown_def hideModal_def split: option.splits)

theorem escape_key_witness:
  "modal page_open = Some (js ''block'')
   \<and> keydown (js ''Escape'') page_open = page_closed\<lparr>modal := Some (js ''none'')\<rparr>
   \<and> modal page_closed \<noteq> Some (js ''block'')
   \<and> keydown (js ''Escape'') page_closed = page_closed"
  using escape_key [of page_open] escape_key [of page_closed]
  by (simp add: page_open_def page_closed_def js_def)

section \<open>The toast notifier\<close>

lemma pending_showToast:
  assumes "page_ok p"
  shows "toast_pending (created p) (now p) (showToast m ty p)"
  using assms
  by (auto simp add: toast_pending_def page_ok_def showToast_def Let_def in_document_def
      list_all_iff list_ex_iff)

lemma pending_elapse:
  "toast_pending k T q \<Longrightarrow> toast_pending k T (q\<lparr>now := now q + d\<rparr>)"
  by (auto simp add: toast_pending_def in_document_def)

lemma pending_show:
  "toast_pending k T q \<Longrightarrow> toast_pending k T (showToast m ty q)"
  by (auto simp add: toast_pending_def showToast_def Let_def in_document_def
      list_all_iff list_ex_iff)

lemma set_without: "set (take i xs @ drop (Suc i) xs) \<subseteq> set xs"
  using set_take_subset [of i xs] set_drop_subset [of "Suc i" xs] by auto

lemma pending_fire:
  assumes "toast_pending k T q"
  shows "toast_pending k T (fire i q)"
proof (cases "i < length (waiting q) \<and> fst (waiting q ! i) \<le> now q")
  case False
  then have "fire i q = q"
    unfolding fire_def by (rule if_not_P)
  with assms show ?thesis by simp
next
  case True
  obtain due t where w: "waiting q ! i = (due, t)" by (cases "waiting q ! i")
  with True have mem: "(due, t) \<in> set (waiting q)" and due: "due \<le> now q"
    using nth_mem [of i "waiting q"] by auto
  let ?q = "q\<lparr>waiting := take i (waiting q) @ drop (Suc i) (waiting q)\<rparr>"
  have f: "fire i q = run_task t ?q"
    using True w by (simp add: fire_def)
  have rest: "set (waiting ?q) \<subseteq> set (waiting q)"
    using set_without [of i "waiting q"] by simp
  show ?thesis
  proof (cases t)
    case (ExitTimer j)
    show ?thesis
      unfolding f ExitTimer using assms mem due rest
      by (auto simp add: toast_pending_def in_document_def list_all_iff ExitTimer)
  next
    case (ExitComplete j)
    show ?thesis
    proof (cases "j = k")
      case True
      with assms mem ExitComplete have "T + 3000 \<le> due" and out: "ToastOut k \<in> set (tweens q)"
        by (auto simp add: toast_pending_def list_all_iff)
      with due have "T + 3000 \<le> now q" by simp
      with out show ?thesis
        unfolding f ExitComplete using assms rest
        by (auto simp add: toast_pending_def list_all_iff)
    next
      case False
      then have "in_document k (run_task (ExitComplete j) ?q) = in_document k q"
        by (auto simp add: in_document_def list_ex_iff)
      then show ?thesis
        unfolding f ExitComplete using assms rest
        by (auto simp add: toast_pending_def list_all_iff)
    qed
  qed
qed

lemma pending_step:
  "toast_pending k T q \<Longrightarrow> toast_pending k T (page_step e q)"
  by (cases e) (simp_all add: pending_elapse pending_fire pending_show)

lemma pending_run:
  "toast_pending k T q \<Longrightarrow> toast_pending k T (page_run es q)"
  unfolding page_run_def
  by (induction es arbitrary: q) (simp_all add: pending_step)

text \<open>The pages that events reach from the page at load are well formed.\<close>

lemma page_ok_at_load: "page_ok page_at_load"
  by (simp add: page_ok_def page_at_load_def)

lemma page_ok_showToast: "page_ok p \<Longrightarrow> page_ok (showToast m ty p)"
  by (auto simp add: page_ok_def showToast_def Let_def list_all_iff)

lemma page_ok_fire:
  assumes "page_ok p"
  shows "page_ok (fire i p)"
proof (cases "i < length (waiting p) \<and> fst (waiting p ! i) \<le> now p")
  case False
  then have "fire i p = p"
    unfolding fire_def by (rule if_not_P)
  with assms show ?thesis by simp
next
  case True
  obtain due t where w: "waiting p ! i = (due, t)" by (cases "waiting p ! i")
  with True have mem: "(due, t) \<in> set (waiting p)"
    using nth_mem [of i "waiting p"] by auto
  have f: "fire i p = run_task t (p\<lparr>waiting := take i (waiting p) @ drop (Suc i) (waiting p)\<rparr>)"
    using True w by (simp add: fire_def)
  have rest: "set (take i (waiting p) @ drop (Suc i) (waiting p)) \<subseteq> set (waiting p)"
    by (rule set_without)
  show ?thesis
    unfolding f using assms mem rest
    by (cases t) (auto simp add: page_ok_def list_all_iff)
qed

lemma page_ok_step: "page_ok p \<Longrightarrow> page_ok (page_step e p)"
  by (cases e) (simp_all add: page_ok_showToast page_ok_fire, simp add: page_ok_def)

lemma page_ok_run: "page_ok p \<Longrightarrow> page_ok (page_run es p)"
  unfolding page_run_def
  by (induction es arbitrary: p) (simp_all add: page_ok_step)

lemma page_ok_submit:
  "page_ok p \<Longrightarrow> page_ok (submit_settle r p)"
  by (cases r)
     (auto simp add: submit_settle_def submit_finally_def submit_try_def page_ok_def
        showToast_def Let_def list_all_iff)

text \<open>
  C10: a toast made by \<open>showToast\<close> at time \<open>T\<close> on a well-formed page is in the
  document at once, and whatever happens afterwards (time passing, callbacks run when
  they are due, further toasts), if the toast is no longer in the document then at least
  3000 ms have passed since \<open>T\<close>, and its exit tween has been started: only the timer
  of 3000 ms starts that tween, and only the tween's \<open>onComplete\<close> removes the toast.
  How long the tween runs is the animation engine's matter (about half a second); the
  bound does not depend on it.
\<close>

theorem toast_dwell:
  assumes "page_ok p"
  shows "in_document (created p) (showToast m ty p)
       \<and> (\<not> in_document (created p) (page_run es (showToast m ty p)) \<longrightarrow>
            now p + 3000 \<le> now (page_run es (showToast m ty p))
          \<and> ToastOut (created p) \<in> set (tweens (page_run es (showToast m ty p))))"
proof -
  have "toast_pending (created p) (now p) (page_run es (showToast m ty p))"
    by (rule pending_run [OF pending_showToast [OF assms]])
  moreover have "in_document (created p) (showToast m ty p)"
    by (simp add: in_document_def showToast_def Let_def)
  ultimately show ?thesis
    by (auto simp add: toast_pending_def)
qed

theorem toast_dwell_witness:
  "page_ok page_at_load
   \<and> in_document 0 (showToast msg_success (js ''success'') page_at_load)
   \<and> \<not> in_document 0 (page_run [Elapse 3000, Fire 0, Elapse 497, Fire 0]
         (showToast msg_success (js ''success'') page_at_load))
   \<and> now (page_run [Elapse 3000, Fire 0, Elapse 497, Fire 0]
         (showToast msg_success (js ''success'') page_at_load)) = 3497
   \<and> tweens (page_run [Elapse 3000, Fire 0, Elapse 497, Fire 0]
         (showToast msg_success (js ''success'') page_at_load)) = [ToastIn 0, ToastOut 0]
   \<and> in_document 0 (page_run [Elapse 2999, Fire 0, Elapse 500, Fire 0]
         (showToast msg_success (js ''success'') page_at_load))"
  using toast_dwell [of page_at_load msg_success "js ''success''"
      "[Elapse 3000, Fire 0, Elapse 497, Fire 0]"]
  by (simp add: page_ok_def page_at_load_def showToast_def Let_def page_run_def fire_def
      in_document_def)

end
